theory Spec2Isabelle
  imports Main "HOL-Library.Word" "HOL-Library.FSet" "HOL-Library.Sublist"
begin

section \<open>Values of the program\<close>

text \<open>
  \<^verbatim>\<open>connection.py\<close> holds two classes: \<^verbatim>\<open>Connection\<close> (a socket, an alive flag, the
  thread that runs the receive loop, a set of listeners) and \<^verbatim>\<open>MessageListener\<close> (two stored
  callables). The embedding keeps Python's values as follows.
  \<^item> \<^verbatim>\<open>bytes\<close> is a list of 8-bit words.
  \<^item> \<^verbatim>\<open>str\<close> is a list of code points (natural numbers), which is what \<^verbatim>\<open>+\<close>,
    \<^verbatim>\<open>endswith\<close> and the UTF-8 codec work on.
  \<^item> An object is known by its identity, a reference; the objects registered as listeners live
    in a store from references to their two methods. The set \<^verbatim>\<open>__listeners\<close> is a finite set
    of references, as Python's set hashes and compares a plain object by identity.
  \<^item> A raised exception is a value of \<open>exn\<close>; every operation returns its result, or the
    exception it raised, together with the state it left behind.
\<close>

type_synonym byte = "8 word"
type_synonym bytes = "byte list"
type_synonym str = "nat list"
type_synonym ref = nat

datatype exn =
    SocketError string
  | ValueError string
  | OverflowError string
  | UnicodeEncodeError nat
  | AttributeError string
  | KeyError ref
  | RuntimeError string
  | Raised string

text \<open>
  In Python 3 \<^verbatim>\<open>socket.error\<close> is \<^verbatim>\<open>OSError\<close>, the class of every failure the socket
  layer reports (refused, unreachable, timed out, name lookup). \<open>SocketError\<close> stands for
  that class, with the text \<^verbatim>\<open>str(exc)\<close> gives; it is what \<^verbatim>\<open>except socket.error\<close>
  catches. \<open>Raised\<close> stands for any exception a callback of the application raises.
\<close>

definition CR :: byte where "CR = 0x0D"
definition LF :: byte where "LF = 0x0A"

definition CRLF :: bytes where
  "CRLF = [CR, LF]"

definition crlf_str :: str where
  "crlf_str = [13, 10]"

subsection \<open>The socket object\<close>

text \<open>
  What the program can observe of a \<^verbatim>\<open>socket.socket\<close>: the timeout set on it, the address
  it is connected to, whether \<^verbatim>\<open>close()\<close> was called, and the buffers handed to
  \<^verbatim>\<open>send\<close>, in order.
\<close>

record sock =
  timeout :: "int option"
  peer :: "(string \<times> int) option"
  closed :: bool
  sent :: "bytes list"

definition new_socket :: sock where
  "new_socket = \<lparr>timeout = None, peer = None, closed = False, sent = []\<rparr>"

text \<open>
  \<^verbatim>\<open>sock.settimeout(timeout)\<close> with a number of seconds: a negative one is refused with
  \<^verbatim>\<open>ValueError\<close>; one that does not fit the socket's clock (more than 9223372036 seconds,
  the largest count whose nanoseconds fit 64 bits) is refused with \<^verbatim>\<open>OverflowError\<close>.
  Neither is a \<^verbatim>\<open>socket.error\<close>.
\<close>

definition settimeout :: "sock \<Rightarrow> int \<Rightarrow> exn + sock" where
  "settimeout sk t =
     (if t < 0 then Inl (ValueError ''Timeout value out of range'')
      else if 9223372036 < t then Inl (OverflowError ''timeout too large'')
      else Inr (sk\<lparr>timeout := Some t\<rparr>))"

text \<open>
  What the world answers during one call of \<^verbatim>\<open>connect\<close>: whether
  \<^verbatim>\<open>socket.socket(...)\<close> raises; whether the host argument is refused as it is converted
  (a NUL character, a name the idna codec rejects: not a \<^verbatim>\<open>socket.error\<close>); whether
  the lookup of the host fails; whether the network connect fails (refused, unreachable,
  timed out); whether \<^verbatim>\<open>Thread.start()\<close> raises.
\<close>

record world =
  socket_raises :: "exn option"
  host_raises :: "exn option"
  resolve_raises :: "exn option"
  connect_raises :: "exn option"
  start_raises :: "exn option"

text \<open>
  \<^verbatim>\<open>sock.connect((ip_address, port))\<close>, in the order the socket module works: the pair is
  parsed (the host converted, the port read as a C int, \<^verbatim>\<open>OverflowError\<close> when it does
  not fit); the host is looked up; only then is the port tested against 0..65535
  (\<^verbatim>\<open>OverflowError\<close>); last comes the connect itself. So with a host that cannot be
  looked up, the lookup's error is raised whatever the port, as long as it is a C int.
\<close>

definition sock_connect :: "sock \<Rightarrow> string \<Rightarrow> int \<Rightarrow> world \<Rightarrow> exn + sock" where
  "sock_connect sk ip_address port w =
     (case host_raises w of
        Some e \<Rightarrow> Inl e
      | None \<Rightarrow>
          if port < - 2147483648 \<or> 2147483647 < port then
            Inl (OverflowError ''port must be 0-65535'')
          else
            (case resolve_raises w of
               Some e \<Rightarrow> Inl e
             | None \<Rightarrow>
                 if port < 0 \<or> 65535 < port then
                   Inl (OverflowError ''port must be 0-65535'')
                 else
                   (case connect_raises w of
                      Some e \<Rightarrow> Inl e
                    | None \<Rightarrow> Inr (sk\<lparr>peer := Some (ip_address, port)\<rparr>))))"

definition sock_close :: "sock \<Rightarrow> sock" where
  "sock_close sk = sk\<lparr>closed := True\<rparr>"

text \<open>
  \<^verbatim>\<open>sock.send(data)\<close>. On a closed or unconnected socket the call fails. Otherwise the
  socket layer decides, and \<open>r\<close> is its answer: it raises (the peer reset the connection,
  the timeout ran out), or it takes the first \<open>n\<close> bytes of the buffer, which may be fewer
  than all, and returns that count. The bytes taken are recorded as sent.
\<close>

definition sock_send :: "sock \<Rightarrow> bytes \<Rightarrow> exn + nat \<Rightarrow> exn + nat \<times> sock" where
  "sock_send sk data r =
     (if closed sk then Inl (SocketError ''Bad file descriptor'')
      else if peer sk = None then Inl (SocketError ''Broken pipe'')
      else case r of
        Inl e \<Rightarrow> Inl e
      | Inr n \<Rightarrow> Inr (min n (length data), sk\<lparr>sent := sent sk @ [take n data]\<rparr>))"

subsection \<open>The Connection object\<close>

datatype thread = Created | Started

record connection =
  socket :: "sock option"
  is_connection_alive :: bool
  listen_thread :: "thread option"
  listeners :: "ref fset"

definition init :: connection where
  "init = \<lparr>socket = None, is_connection_alive = False, listen_thread = None,
           listeners = {||}\<rparr>"

text \<open>
  The body of the \<^verbatim>\<open>try\<close> block of \<^verbatim>\<open>connect\<close>, statement by statement. It returns the
  exception that left the block, if any, and the object as the statements run so far left it.
\<close>

definition connect_try ::
  "connection \<Rightarrow> string \<Rightarrow> int \<Rightarrow> int \<Rightarrow> world \<Rightarrow> exn option \<times> connection" where
  "connect_try c ip_address port tmo w =
     (case socket_raises w of
        Some e \<Rightarrow> (Some e, c)
      | None \<Rightarrow>
          let c1 = c\<lparr>socket := Some new_socket\<rparr> in
          (case settimeout new_socket tmo of
             Inl e \<Rightarrow> (Some e, c1)
           | Inr s1 \<Rightarrow>
               let c2 = c1\<lparr>socket := Some s1\<rparr> in
               (case sock_connect s1 ip_address port w of
                  Inl e \<Rightarrow> (Some e, c2)
                | Inr s2 \<Rightarrow>
                    let c3 = c2\<lparr>socket := Some s2, is_connection_alive := True\<rparr>;
                        c4 = c3\<lparr>listen_thread := Some Created\<rparr>
                    in (case start_raises w of
                          Some e \<Rightarrow> (Some e, c4)
                        | None \<Rightarrow> (None, c4\<lparr>listen_thread := Some Started\<rparr>)))))"

text \<open>
  \<^verbatim>\<open>connect\<close> returns the value or the exception that reaches the caller, the object
  afterwards, and the lines printed.
\<close>

definition connect ::
  "connection \<Rightarrow> string \<Rightarrow> int \<Rightarrow> int \<Rightarrow> world \<Rightarrow> (exn + bool) \<times> connection \<times> string list" where
  "connect c ip_address port tmo w =
     (if \<not> is_connection_alive c then
        (case connect_try c ip_address port tmo w of
           (None, c') \<Rightarrow> (Inr (is_connection_alive c'), c', [])
         | (Some e, c') \<Rightarrow>
             (case e of
                SocketError msg \<Rightarrow>
                  let c'' = c'\<lparr>is_connection_alive := False\<rparr>
                  in (Inr (is_connection_alive c''), c'',
                      [''Caught exception socket.error : '' @ msg])
              | _ \<Rightarrow> (Inl e, c', [])))
      else (Inr False, c, []))"

definition disconnect :: "connection \<Rightarrow> (exn + bool) \<times> connection" where
  "disconnect c =
     (if is_connection_alive c then
        (case socket c of
           None \<Rightarrow> (Inl (AttributeError ''close''), c)
         | Some sk \<Rightarrow>
             (Inr True, c\<lparr>socket := Some (sock_close sk), is_connection_alive := False\<rparr>))
      else (Inr False, c))"

text \<open>
  \<^verbatim>\<open>send_data\<close> calls \<^verbatim>\<open>send\<close> on the socket once and drops the count it returns;
  \<open>r\<close> is the socket layer's answer to that call.
\<close>

definition send_data :: "connection \<Rightarrow> bytes \<Rightarrow> exn + nat \<Rightarrow> (exn + unit) \<times> connection" where
  "send_data c data r =
     (case socket c of
        None \<Rightarrow> (Inl (AttributeError ''send''), c)
      | Some sk \<Rightarrow>
          (case sock_send sk data r of
             Inl e \<Rightarrow> (Inl e, c)
           | Inr (n, sk') \<Rightarrow> (Inr (), c\<lparr>socket := Some sk'\<rparr>)))"

subsection \<open>Sending text\<close>

text \<open>
  \<^verbatim>\<open>bytes(s, "utf-8")\<close>: each code point becomes one to four bytes; a surrogate code point
  (U+D800 to U+DFFF) has no UTF-8 form and the codec raises \<^verbatim>\<open>UnicodeEncodeError\<close> at its
  position. A \<^verbatim>\<open>str\<close> holds no code point above U+10FFFF.
\<close>

definition utf8_char :: "nat \<Rightarrow> bytes" where
  "utf8_char n =
     (if n < 0x80 then [of_nat n]
      else if n < 0x800 then [of_nat (0xC0 + n div 64), of_nat (0x80 + n mod 64)]
      else if n < 0x10000 then
        [of_nat (0xE0 + n div 4096), of_nat (0x80 + n div 64 mod 64), of_nat (0x80 + n mod 64)]
      else
        [of_nat (0xF0 + n div 262144), of_nat (0x80 + n div 4096 mod 64),
         of_nat (0x80 + n div 64 mod 64), of_nat (0x80 + n mod 64)])"

definition encodable :: "nat \<Rightarrow> bool" where
  "encodable n = (n < 0x110000 \<and> \<not> (0xD800 \<le> n \<and> n \<le> 0xDFFF))"

fun encode_from :: "nat \<Rightarrow> str \<Rightarrow> exn + bytes" where
  "encode_from i [] = Inr []"
| "encode_from i (n # ns) =
     (if encodable n then
        (case encode_from (Suc i) ns of
           Inl e \<Rightarrow> Inl e
         | Inr bs \<Rightarrow> Inr (utf8_char n @ bs))
      else Inl (UnicodeEncodeError i))"

definition encode_utf8 :: "str \<Rightarrow> exn + bytes" where
  "encode_utf8 s = encode_from 0 s"

text \<open>\<^verbatim>\<open>message.endswith("\r\n")\<close>\<close>

definition endswith :: "str \<Rightarrow> str \<Rightarrow> bool" where
  "endswith s suf = suffix suf s"

text \<open>
  \<^verbatim>\<open>send\<close>: the conditional expression binds weaker than \<^verbatim>\<open>+\<close>, so the argument of
  \<^verbatim>\<open>bytes\<close> is \<^verbatim>\<open>message + "\r\n"\<close> when \<^verbatim>\<open>crlf_ending\<close> holds and the message does not
  end with the delimiter, and \<^verbatim>\<open>message\<close> otherwise.
\<close>

definition send ::
  "connection \<Rightarrow> str \<Rightarrow> bool \<Rightarrow> exn + nat \<Rightarrow> (exn + unit) \<times> connection" where
  "send c message crlf_ending r =
     (case encode_utf8
             (if crlf_ending \<and> \<not> endswith message crlf_str then message @ crlf_str
              else message) of
        Inl e \<Rightarrow> (Inl e, c)
      | Inr data \<Rightarrow> send_data c data r)"

subsection \<open>The listener set\<close>

definition add_listener :: "connection \<Rightarrow> ref \<Rightarrow> connection" where
  "add_listener c listener = c\<lparr>listeners := finsert listener (listeners c)\<rparr>"

text \<open>\<^verbatim>\<open>set.remove\<close> raises \<^verbatim>\<open>KeyError\<close> when the element is not in the set.\<close>

definition remove_listener :: "connection \<Rightarrow> ref \<Rightarrow> (exn + unit) \<times> connection" where
  "remove_listener c listener =
     (if listener |\<in>| listeners c then
        (Inr (), c\<lparr>listeners := listeners c |-| {|listener|}\<rparr>)
      else (Inl (KeyError listener), c))"

subsection \<open>MessageListener\<close>

text \<open>
  A \<^verbatim>\<open>MessageListener\<close> stores two callables. What a callable does is its caller's
  business: it may read and change the application's own state \<open>'a\<close>, and it returns or
  raises. The value the filter returns is used for its truth value only.
\<close>

record ('m, 'a) message_listener =
  message_filter :: "'m \<Rightarrow> 'a \<Rightarrow> (exn + bool) \<times> 'a"
  receive_fn :: "'m \<Rightarrow> 'a \<Rightarrow> (exn + unit) \<times> 'a"

definition accept :: "('m, 'a) message_listener \<Rightarrow> 'm \<Rightarrow> 'a \<Rightarrow> (exn + bool) \<times> 'a" where
  "accept l message s = message_filter l message s"

definition receive :: "('m, 'a) message_listener \<Rightarrow> 'm \<Rightarrow> 'a \<Rightarrow> (exn + unit) \<times> 'a" where
  "receive l message s =
     (case receive_fn l message s of
        (Inl e, s') \<Rightarrow> (Inl e, s')
      | (Inr _, s') \<Rightarrow> (Inr (), s'))"

subsection \<open>Dispatch\<close>

text \<open>
  The calls the receive loop makes are recorded as it runs: each call of
  \<^verbatim>\<open>__dispatch_listeners\<close> with its argument, each call of a listener's \<^verbatim>\<open>accept\<close> with what
  it returned or raised, each call of a listener's \<^verbatim>\<open>receive\<close> with the exception it raised,
  if any.
\<close>

datatype 'm event =
    Dispatch 'm
  | Accept ref 'm "exn + bool"
  | Receive ref 'm "exn option"

text \<open>
  The body of \<^verbatim>\<open>for listener in self.__listeners\<close>, over the listeners still to visit. An
  exception leaves the loop at once: nothing catches it.
\<close>

fun dispatch_loop ::
  "(ref \<Rightarrow> ('m, 'a) message_listener) \<Rightarrow> ref list \<Rightarrow> 'm \<Rightarrow> 'a \<Rightarrow> exn option \<times> 'a \<times> 'm event list"
where
  "dispatch_loop objs [] obj s = (None, s, [])"
| "dispatch_loop objs (r # rs) obj s =
     (case accept (objs r) obj s of
        (Inl e, s1) \<Rightarrow> (Some e, s1, [Accept r obj (Inl e)])
      | (Inr b, s1) \<Rightarrow>
          if b then
            (case receive (objs r) obj s1 of
               (Inl e, s2) \<Rightarrow> (Some e, s2, [Accept r obj (Inr b), Receive r obj (Some e)])
             | (Inr _, s2) \<Rightarrow>
                 (case dispatch_loop objs rs obj s2 of
                    (res, s3, t) \<Rightarrow> (res, s3, Accept r obj (Inr b) # Receive r obj None # t)))
          else
            (case dispatch_loop objs rs obj s1 of
               (res, s3, t) \<Rightarrow> (res, s3, Accept r obj (Inr b) # t)))"

text \<open>
  A Python set is iterated in an order its contents fix; the model takes the order of the
  references.
\<close>

definition dispatch_listeners ::
  "(ref \<Rightarrow> ('m, 'a) message_listener) \<Rightarrow> connection \<Rightarrow> 'm \<Rightarrow> 'a \<Rightarrow> exn option \<times> 'a \<times> 'm event list"
where
  "dispatch_listeners objs c obj s =
     (case dispatch_loop objs (sorted_list_of_fset (listeners c)) obj s of
        (res, s', t) \<Rightarrow> (res, s', Dispatch obj # t))"

subsection \<open>The receive loop\<close>

text \<open>\<^verbatim>\<open>_process_data\<close>, the hook a subclass may override: it returns its argument.\<close>

definition process_data :: "bytes \<Rightarrow> bytes" where
  "process_data data = data"

text \<open>
  \<^verbatim>\<open>data.split(sep)\<close> for a non-empty separator: scan from the left; at each occurrence
  of the separator close the current segment and skip the separator. The segment open at
  the end of the data is the last element, so the result is never empty.
\<close>

function split_from :: "bytes \<Rightarrow> bytes \<Rightarrow> bytes \<Rightarrow> bytes list" where
  "split_from sep cur [] = [cur]"
| "split_from sep cur (x # xs) =
     (if prefix sep (x # xs) then cur # split_from sep [] (drop (length sep - 1) xs)
      else split_from sep (cur @ [x]) xs)"
  by pat_completeness auto
termination
  by (relation "measure (\<lambda>(sep, cur, xs). length xs)") auto

definition bytes_split :: "bytes \<Rightarrow> bytes \<Rightarrow> exn + bytes list" where
  "bytes_split data sep =
     (if sep = [] then Inl (ValueError ''empty separator'')
      else Inr (split_from sep [] data))"

text \<open>
  The inner \<^verbatim>\<open>for msg in ...\<close> loop: decode and dispatch each element in turn; an exception
  from a listener leaves it.
\<close>

fun dispatch_each ::
  "(bytes \<Rightarrow> 'm) \<Rightarrow> (ref \<Rightarrow> ('m, 'a) message_listener) \<Rightarrow> connection \<Rightarrow> bytes list \<Rightarrow> 'a
     \<Rightarrow> exn option \<times> 'a \<times> 'm event list"
where
  "dispatch_each decode objs c [] s = (None, s, [])"
| "dispatch_each decode objs c (msg # msgs) s =
     (case dispatch_listeners objs c (decode msg) s of
        (Some e, s1, t) \<Rightarrow> (Some e, s1, t)
      | (None, s1, t) \<Rightarrow>
          (case dispatch_each decode objs c msgs s1 of
             (res, s2, t') \<Rightarrow> (res, s2, t @ t')))"

text \<open>
  \<^verbatim>\<open>self.__socket.recv(buffer_size)\<close>. On \<^verbatim>\<open>None\<close> the attribute lookup fails; on a closed
  socket the call fails; otherwise the call returns what arrived (at most
  \<^verbatim>\<open>buffer_size\<close> bytes, the empty bytes when the peer has closed the stream) or raises what
  the socket layer reports (a timeout, a reset). \<open>r\<close> is that outcome.
\<close>

definition recv :: "connection \<Rightarrow> nat \<Rightarrow> exn + bytes \<Rightarrow> exn + bytes" where
  "recv c buffer_size r =
     (case socket c of
        None \<Rightarrow> Inl (AttributeError ''recv'')
      | Some sk \<Rightarrow>
          if closed sk then Inl (SocketError ''Bad file descriptor'')
          else r)"

text \<open>
  How a run of the loop ends: the \<^verbatim>\<open>while\<close> condition became false and \<^verbatim>\<open>__listen\<close>
  returned; an exception left it; or it is blocked in \<^verbatim>\<open>recv\<close>, every outcome it was given
  consumed.
\<close>

datatype ending = Returned | Raises exn | Blocked

record ('m, 'a) run =
  ending :: ending
  conn :: connection
  app :: 'a
  trace :: "'m event list"

text \<open>One pass through the body of the \<^verbatim>\<open>while\<close> loop, given the outcome of its read.\<close>

definition listen_body ::
  "(bytes \<Rightarrow> 'm) \<Rightarrow> (ref \<Rightarrow> ('m, 'a) message_listener) \<Rightarrow> nat \<Rightarrow> connection \<Rightarrow> 'a
     \<Rightarrow> exn + bytes \<Rightarrow> exn option \<times> connection \<times> 'a \<times> 'm event list"
where
  "listen_body decode objs buffer_size c s r =
     (case recv c buffer_size r of
        Inl e \<Rightarrow> (Some e, c, s, [])
      | Inr data \<Rightarrow>
          if data \<noteq> [] then
            (case bytes_split data CRLF of
               Inl e \<Rightarrow> (Some e, c, s, [])
             | Inr segs \<Rightarrow>
                 (case dispatch_each decode objs c (take 1 segs) s of
                    (res, s', t) \<Rightarrow> (res, c, s', t)))
          else (None, c\<lparr>is_connection_alive := False\<rparr>, s, []))"

text \<open>
  \<^verbatim>\<open>__listen\<close>, run on the outcomes of its successive reads; \<open>decode\<close> is the
  \<^verbatim>\<open>_process_data\<close> in force. The loop tests the alive flag before each read. Once every
  outcome is consumed, a further read fails at once when the socket is missing or closed,
  and blocks otherwise.
\<close>

fun listen ::
  "(bytes \<Rightarrow> 'm) \<Rightarrow> (ref \<Rightarrow> ('m, 'a) message_listener) \<Rightarrow> nat \<Rightarrow> connection \<Rightarrow> 'a
     \<Rightarrow> (exn + bytes) list \<Rightarrow> ('m, 'a) run"
where
  "listen decode objs buffer_size c s [] =
     (if is_connection_alive c then
        (case recv c buffer_size (Inr []) of
           Inl e \<Rightarrow> \<lparr>ending = Raises e, conn = c, app = s, trace = []\<rparr>
         | Inr _ \<Rightarrow> \<lparr>ending = Blocked, conn = c, app = s, trace = []\<rparr>)
      else \<lparr>ending = Returned, conn = c, app = s, trace = []\<rparr>)"
| "listen decode objs buffer_size c s (r # rs) =
     (if is_connection_alive c then
        (case listen_body decode objs buffer_size c s r of
           (Some e, c', s', t) \<Rightarrow> \<lparr>ending = Raises e, conn = c', app = s', trace = t\<rparr>
         | (None, c', s', t) \<Rightarrow>
             (case listen decode objs buffer_size c' s' rs of
                run \<Rightarrow> run\<lparr>trace := t @ trace run\<rparr>))
      else \<lparr>ending = Returned, conn = c, app = s, trace = []\<rparr>)"

text \<open>
  The invariant of a Connection: while the alive flag is set, the socket is there, open and
  connected. The constructor establishes it; \<^verbatim>\<open>connect\<close>, \<^verbatim>\<open>disconnect\<close>, the listener
  operations, the sends and the receive loop keep it.
\<close>

definition conn_inv :: "connection \<Rightarrow> bool" where
  "conn_inv c =
     (if is_connection_alive c then
        (case socket c of None \<Rightarrow> False | Some sk \<Rightarrow> \<not> closed sk \<and> peer sk \<noteq> None)
      else True)"

section \<open>Reading a trace\<close>

text \<open>
  Tests on the recorded calls: a call of \<^verbatim>\<open>receive\<close> on listener \<open>r\<close> with message \<open>m\<close>;
  a call of \<^verbatim>\<open>accept\<close> on \<open>r\<close> with \<open>m\<close>; such a call that returned true.
\<close>

fun is_receive :: "ref \<Rightarrow> 'm \<Rightarrow> 'm event \<Rightarrow> bool" where
  "is_receive r m (Receive r' m' _) = (r' = r \<and> m' = m)"
| "is_receive r m _ = False"

fun is_accept :: "ref \<Rightarrow> 'm \<Rightarrow> 'm event \<Rightarrow> bool" where
  "is_accept r m (Accept r' m' _) = (r' = r \<and> m' = m)"
| "is_accept r m _ = False"

fun is_accepted :: "ref \<Rightarrow> 'm \<Rightarrow> 'm event \<Rightarrow> bool" where
  "is_accepted r m (Accept r' m' res) = (r' = r \<and> m' = m \<and> res = Inr True)"
| "is_accepted r m _ = False"

text \<open>The arguments of the calls of \<^verbatim>\<open>__dispatch_listeners\<close>, in order.\<close>

fun dispatched :: "'m event list \<Rightarrow> 'm list" where
  "dispatched [] = []"
| "dispatched (Dispatch m # t) = m # dispatched t"
| "dispatched (_ # t) = dispatched t"

section \<open>Example values\<close>

definition calm :: world where
  "calm = \<lparr>socket_raises = None, host_raises = None, resolve_raises = None,
            connect_raises = None, start_raises = None\<rparr>"

definition refusing :: world where
  "refusing = \<lparr>socket_raises = None, host_raises = None, resolve_raises = None,
                connect_raises = Some (SocketError ''[Errno 111] Connection refused''),
                start_raises = None\<rparr>"

definition unresolved :: world where
  "unresolved = \<lparr>socket_raises = None, host_raises = None,
                  resolve_raises = Some (SocketError ''[Errno -2] Name or service not known''),
                  connect_raises = None, start_raises = None\<rparr>"

definition live :: connection where
  "live = fst (snd (connect init ''127.0.0.1'' 6667 10 calm))"

text \<open>
  Three listeners over an application state that is the list of messages handled so far:
  \<open>logger\<close> accepts every message and appends it to the list, \<open>deaf\<close> accepts none,
  \<open>faulty\<close> raises from its filter. \<open>store\<close> puts \<open>faulty\<close> at reference 1,
  \<open>logger\<close> at 2 and \<open>deaf\<close> everywhere else.
\<close>

definition logger :: "(bytes, bytes list) message_listener" where
  "logger = \<lparr>message_filter = (\<lambda>m s. (Inr True, s)),
              receive_fn = (\<lambda>m s. (Inr (), s @ [m]))\<rparr>"

definition deaf :: "(bytes, bytes list) message_listener" where
  "deaf = \<lparr>message_filter = (\<lambda>m s. (Inr False, s)),
            receive_fn = (\<lambda>m s. (Inr (), s @ [m]))\<rparr>"

definition faulty :: "(bytes, bytes list) message_listener" where
  "faulty = \<lparr>message_filter = (\<lambda>m s. (Inl (Raised ''boom''), s)),
              receive_fn = (\<lambda>m s. (Inr (), s @ [m]))\<rparr>"

definition store :: "ref \<Rightarrow> (bytes, bytes list) message_listener" where
  "store r = (if r = 1 then faulty else if r = 2 then logger else deaf)"

section \<open>The invariant\<close>

lemma live_eq:
  "live = \<lparr>socket = Some \<lparr>timeout = Some 10, peer = Some (''127.0.0.1'', 6667),
                           closed = False, sent = []\<rparr>,
           is_connection_alive = True, listen_thread = Some Started, listeners = {||}\<rparr>"
  by (simp add: live_def connect_def connect_try_def init_def calm_def settimeout_def
      sock_connect_def new_socket_def)

lemma conn_inv_init: "conn_inv init"
  by (simp add: conn_inv_def init_def)

lemma conn_inv_live: "conn_inv live"
  by (simp add: live_eq conn_inv_def)

lemma conn_inv_connect_try:
  "\<not> is_connection_alive c \<Longrightarrow> conn_inv (snd (connect_try c ip_address port tmo w))"
  by (simp add: conn_inv_def connect_try_def settimeout_def sock_connect_def
      new_socket_def Let_def split: option.splits)

lemma conn_inv_unset: "conn_inv (c\<lparr>is_connection_alive := False\<rparr>)"
  by (simp add: conn_inv_def)

lemma conn_inv_connect:
  assumes "conn_inv c"
  shows "conn_inv (fst (snd (connect c ip_address port tmo w)))"
proof (cases "is_connection_alive c")
  case True
  with assms show ?thesis by (simp add: connect_def)
next
  case False
  obtain res c' where t: "connect_try c ip_address port tmo w = (res, c')"
    by (cases "connect_try c ip_address port tmo w") auto
  have inv: "conn_inv c'"
    using conn_inv_connect_try [OF False, of ip_address port tmo w] t by simp
  show ?thesis
  proof (cases res)
    case None
    with False t inv show ?thesis by (simp add: connect_def)
  next
    case (Some e)
    with False t inv show ?thesis
      by (cases e) (simp_all add: connect_def conn_inv_unset)
  qed
qed

lemma conn_inv_disconnect: "conn_inv c \<Longrightarrow> conn_inv (snd (disconnect c))"
  by (simp add: conn_inv_unset disconnect_def split: option.splits)

lemma conn_inv_send_data: "conn_inv c \<Longrightarrow> conn_inv (snd (send_data c data r))"
  by (auto simp: conn_inv_def send_data_def sock_send_def split: option.splits sum.splits)

lemma conn_inv_send: "conn_inv c \<Longrightarrow> conn_inv (snd (send c message crlf_ending r))"
  by (simp add: send_def conn_inv_send_data split: sum.splits)

lemma conn_inv_add_listener: "conn_inv c \<Longrightarrow> conn_inv (add_listener c r)"
  by (simp add: conn_inv_def add_listener_def)

lemma conn_inv_remove_listener: "conn_inv c \<Longrightarrow> conn_inv (snd (remove_listener c r))"
  by (simp add: conn_inv_def remove_listener_def)

lemma conn_inv_listen_body:
  "conn_inv c \<Longrightarrow> conn_inv (fst (snd (listen_body decode objs n c s r)))"
  by (simp add: conn_inv_unset listen_body_def split: sum.splits prod.splits)

lemma conn_inv_listen: "conn_inv c \<Longrightarrow> conn_inv (conn (listen decode objs n c s rs))"
proof (induction rs arbitrary: c s)
  case Nil
  then show ?case by (simp split: sum.splits)
next
  case (Cons r rs)
  obtain res c' s' t where b: "listen_body decode objs n c s r = (res, c', s', t)"
    by (cases "listen_body decode objs n c s r") auto
  have inv: "conn_inv c'"
    using conn_inv_listen_body [OF Cons.prems, of decode objs n s r] b by simp
  have ih: "conn_inv (conn (listen decode objs n c' s' rs))"
    using inv by (rule Cons.IH)
  from Cons.prems b inv ih show ?case
    by (cases res) simp_all
qed

lemma recv_open:
  "is_connection_alive c \<Longrightarrow> conn_inv c \<Longrightarrow> recv c n r = r"
  by (auto simp: recv_def conn_inv_def split: option.splits)

section \<open>Connecting and disconnecting\<close>

text \<open>
  C5. On a Connection whose alive flag is set, \<^verbatim>\<open>connect\<close> returns \<^verbatim>\<open>False\<close>, raises
  nothing, prints nothing and leaves every attribute (socket, alive flag, thread, listener
  set) as it was. On a Connection whose alive flag is not set, \<^verbatim>\<open>disconnect\<close> returns
  \<^verbatim>\<open>False\<close>, raises nothing and leaves every attribute as it was.
\<close>

theorem connect_alive_disconnect_idle_noop:
  "(is_connection_alive c \<longrightarrow> connect c ip_address port tmo w = (Inr False, c, [])) \<and>
   (\<not> is_connection_alive c \<longrightarrow> disconnect c = (Inr False, c))"
  by (simp add: connect_def disconnect_def)

theorem connect_alive_disconnect_idle_noop_witness:
  "is_connection_alive live \<and>
   connect live ''10.0.0.1'' 6697 5 refusing = (Inr False, live, []) \<and>
   \<not> is_connection_alive init \<and>
   disconnect init = (Inr False, init)"
  using connect_alive_disconnect_idle_noop [of live "''10.0.0.1''" 6697 5 refusing]
    connect_alive_disconnect_idle_noop [of init "''10.0.0.1''" 6697 5 refusing]
  by (simp add: live_eq init_def)

lemma connect_try_listeners:
  "listeners (snd (connect_try c ip_address port tmo w)) = listeners c"
  by (simp add: connect_try_def Let_def split: option.splits sum.splits)

lemma connect_try_refused:
  assumes "socket_raises w = None" and "host_raises w = None" and "resolve_raises w = None"
    and "connect_raises w = Some e"
    and "0 \<le> tmo" and "tmo \<le> 9223372036" and "0 \<le> port" and "port \<le> 65535"
  shows "connect_try c ip_address port tmo w =
           (Some e, c\<lparr>socket := Some (new_socket\<lparr>timeout := Some tmo\<rparr>)\<rparr>)"
  using assms by (simp add: connect_try_def settimeout_def sock_connect_def)

lemma connect_try_unresolved:
  assumes "socket_raises w = None" and "host_raises w = None" and "resolve_raises w = Some e"
    and "0 \<le> tmo" and "tmo \<le> 9223372036"
    and "- 2147483648 \<le> port" and "port \<le> 2147483647"
  shows "connect_try c ip_address port tmo w =
           (Some e, c\<lparr>socket := Some (new_socket\<lparr>timeout := Some tmo\<rparr>)\<rparr>)"
  using assms by (simp add: connect_try_def settimeout_def sock_connect_def)

text \<open>
  C6. On a Connection that is not alive, when the attempt to open and connect the socket
  fails with a socket-level error (the \<^verbatim>\<open>try\<close> block of \<^verbatim>\<open>connect\<close> is left by a
  \<^verbatim>\<open>socket.error\<close>, whichever statement raised it), \<^verbatim>\<open>connect\<close> returns \<^verbatim>\<open>False\<close> to
  the caller instead of raising, prints one line that names the error, and leaves the
  alive flag unset; the listener set is untouched.
\<close>

theorem connect_socket_error:
  assumes "\<not> is_connection_alive c"
    and "connect_try c ip_address port tmo w = (Some (SocketError msg), c')"
  shows "connect c ip_address port tmo w =
           (Inr False, c'\<lparr>is_connection_alive := False\<rparr>,
            [''Caught exception socket.error : '' @ msg]) \<and>
         \<not> is_connection_alive (fst (snd (connect c ip_address port tmo w))) \<and>
         listeners (fst (snd (connect c ip_address port tmo w))) = listeners c"
proof -
  have run: "connect c ip_address port tmo w =
      (Inr False, c'\<lparr>is_connection_alive := False\<rparr>,
       [''Caught exception socket.error : '' @ msg])"
    using assms by (simp add: connect_def)
  have "listeners c' = listeners c"
    using connect_try_listeners [of c ip_address port tmo w] assms(2) by simp
  with run show ?thesis
    by simp
qed

theorem connect_socket_error_witness:
  "\<not> is_connection_alive init \<and>
   connect_try init ''127.0.0.1'' 6667 10 refusing =
     (Some (SocketError ''[Errno 111] Connection refused''),
      init\<lparr>socket := Some (new_socket\<lparr>timeout := Some 10\<rparr>)\<rparr>) \<and>
   connect init ''127.0.0.1'' 6667 10 refusing =
     (Inr False,
      init\<lparr>socket := Some (new_socket\<lparr>timeout := Some 10\<rparr>)\<rparr>,
      [''Caught exception socket.error : [Errno 111] Connection refused'']) \<and>
   connect_try init ''no.such.host'' 70000 10 unresolved =
     (Some (SocketError ''[Errno -2] Name or service not known''),
      init\<lparr>socket := Some (new_socket\<lparr>timeout := Some 10\<rparr>)\<rparr>) \<and>
   connect init ''no.such.host'' 70000 10 unresolved =
     (Inr False,
      init\<lparr>socket := Some (new_socket\<lparr>timeout := Some 10\<rparr>)\<rparr>,
      [''Caught exception socket.error : [Errno -2] Name or service not known''])"
proof -
  have a: "\<not> is_connection_alive init"
    by (simp add: init_def)
  have b: "connect_try init ''127.0.0.1'' 6667 10 refusing =
      (Some (SocketError ''[Errno 111] Connection refused''),
       init\<lparr>socket := Some (new_socket\<lparr>timeout := Some 10\<rparr>)\<rparr>)"
    by (rule connect_try_refused) (simp_all add: refusing_def)
  have c: "connect_try init ''no.such.host'' 70000 10 unresolved =
      (Some (SocketError ''[Errno -2] Name or service not known''),
       init\<lparr>socket := Some (new_socket\<lparr>timeout := Some 10\<rparr>)\<rparr>)"
    by (rule connect_try_unresolved) (simp_all add: unresolved_def)
  have flag: "(init\<lparr>socket := Some (new_socket\<lparr>timeout := Some 10\<rparr>)\<rparr>)
      \<lparr>is_connection_alive := False\<rparr> =
      init\<lparr>socket := Some (new_socket\<lparr>timeout := Some 10\<rparr>)\<rparr>"
    by (simp add: init_def)
  note r1 = connect_socket_error [OF a b, THEN conjunct1]
  note r2 = connect_socket_error [OF a c, THEN conjunct1]
  from a b c r1 r2 flag show ?thesis
    by simp
qed

text \<open>
  C7. On an alive Connection (one that satisfies the invariant, so that its socket is
  there), \<^verbatim>\<open>disconnect\<close> calls \<^verbatim>\<open>close()\<close> on the socket, unsets the alive flag and
  returns \<^verbatim>\<open>True\<close>; nothing else changes.
\<close>

theorem disconnect_alive:
  assumes "is_connection_alive c" and "conn_inv c"
  shows "disconnect c =
           (Inr True,
            c\<lparr>socket := Some (sock_close (the (socket c))), is_connection_alive := False\<rparr>) \<and>
         closed (the (socket (snd (disconnect c)))) \<and>
         \<not> is_connection_alive (snd (disconnect c))"
  using assms
  by (auto simp: disconnect_def conn_inv_def sock_close_def split: option.splits)

theorem disconnect_alive_witness:
  "is_connection_alive live \<and> conn_inv live \<and>
   disconnect live =
     (Inr True,
      \<lparr>socket = Some \<lparr>timeout = Some 10, peer = Some (''127.0.0.1'', 6667),
                      closed = True, sent = []\<rparr>,
       is_connection_alive = False, listen_thread = Some Started, listeners = {||}\<rparr>)"
proof -
  have a: "is_connection_alive live"
    by (simp add: live_eq)
  from disconnect_alive [OF a conn_inv_live] a conn_inv_live show ?thesis
    by (simp add: live_eq sock_close_def)
qed

section \<open>The listener set\<close>

text \<open>
  C10. \<^verbatim>\<open>remove_listener\<close> with a listener that is not in the set raises \<^verbatim>\<open>KeyError\<close>
  (it does not return), and the Connection, its listener set included, is as before.
\<close>

theorem remove_listener_missing:
  assumes "listener |\<notin>| listeners c"
  shows "remove_listener c listener = (Inl (KeyError listener), c)"
  using assms by (simp add: remove_listener_def)

theorem remove_listener_missing_witness:
  "2 |\<notin>| listeners (add_listener init 1) \<and>
   remove_listener (add_listener init 1) 2 = (Inl (KeyError 2), add_listener init 1)"
proof -
  have a: "2 |\<notin>| listeners (add_listener init 1)"
    by (simp add: add_listener_def init_def)
  from remove_listener_missing [OF a] a show ?thesis
    by simp
qed

section \<open>The receive loop\<close>

lemma listen_not_alive:
  "\<not> is_connection_alive c \<Longrightarrow>
   listen decode objs n c s rs = \<lparr>ending = Returned, conn = c, app = s, trace = []\<rparr>"
  by (cases rs) simp_all

text \<open>
  C9. On an alive Connection (with the invariant, so that the read can happen), when the
  read returns the empty bytes the loop unsets the alive flag and returns: no exception,
  no listener called, the socket left as it was (\<^verbatim>\<open>close()\<close> is not called), the reads that
  would follow never made.
\<close>

theorem listen_empty_read:
  assumes "is_connection_alive c" and "conn_inv c"
  shows "listen decode objs buffer_size c s (Inr [] # rs) =
           \<lparr>ending = Returned, conn = c\<lparr>is_connection_alive := False\<rparr>, app = s, trace = []\<rparr>"
  using assms by (simp add: listen_body_def recv_open listen_not_alive)


theorem listen_empty_read_witness:
  "is_connection_alive (add_listener live 2) \<and> conn_inv (add_listener live 2) \<and>
   listen process_data store 4096 (add_listener live 2) [] [Inr [], Inr [0x41, CR, LF]] =
     \<lparr>ending = Returned,
      conn = (add_listener live 2)\<lparr>is_connection_alive := False\<rparr>,
      app = [], trace = []\<rparr> \<and>
   socket (add_listener live 2\<lparr>is_connection_alive := False\<rparr>) = socket live"
proof -
  have a: "is_connection_alive (add_listener live 2)"
    by (simp add: live_eq add_listener_def)
  have b: "conn_inv (add_listener live 2)"
    by (rule conn_inv_add_listener [OF conn_inv_live])
  from listen_empty_read [OF a b, of process_data store 4096 "[]" "[Inr [0x41, CR, LF]]"] a b
  show ?thesis
    by (simp add: live_eq add_listener_def)
qed

section \<open>Sending text\<close>

lemma encode_from_append:
  "encode_from i xs = Inr bs \<Longrightarrow>
   encode_from i (xs @ ys) =
     (case encode_from (i + length xs) ys of Inl e \<Rightarrow> Inl e | Inr cs \<Rightarrow> Inr (bs @ cs))"
proof (induction xs arbitrary: i bs)
  case Nil
  then show ?case by (simp split: sum.splits)
next
  case (Cons x xs)
  then show ?case
    by (auto split: if_splits sum.splits)
qed

lemma encode_from_crlf: "encode_from i crlf_str = Inr CRLF"
  by (simp add: crlf_str_def CRLF_def CR_def LF_def encodable_def utf8_char_def)

lemma encode_utf8_crlf_appended:
  "encode_utf8 message = Inr bs \<Longrightarrow> encode_utf8 (message @ crlf_str) = Inr (bs @ CRLF)"
  by (simp add: encode_utf8_def encode_from_append encode_from_crlf)


lemma encode_from_concat:
  "encode_from i ns = Inr bs \<Longrightarrow> bs = concat (map utf8_char ns) \<and> list_all encodable ns"
proof (induction ns arbitrary: i bs)
  case Nil
  then show ?case by simp
next
  case (Cons n ns)
  then show ?case
    by (auto split: if_splits sum.splits)
qed

lemma byte_of_nat_eq:
  "m < 256 \<Longrightarrow> k < 256 \<Longrightarrow> ((of_nat m :: byte) = of_nat k) = (m = k)"
  by (simp add: word_of_nat_eq_iff take_bit_nat_eq_self)

lemma utf8_char_not_empty: "utf8_char n \<noteq> []"
  by (simp add: utf8_char_def)

lemma last_utf8_char:
  assumes "n < 0x110000" and "k < 0x80"
  shows "(last (utf8_char n) = of_nat k) = (n = k)"
proof (cases "n < 0x80")
  case True
  with assms show ?thesis
    by (simp add: utf8_char_def byte_of_nat_eq)
next
  case False
  have "0x80 + n mod 64 < 256"
    by simp
  then have "((of_nat (0x80 + n mod 64) :: byte) = of_nat k) = (0x80 + n mod 64 = k)"
    using assms(2) by (intro byte_of_nat_eq) simp_all
  with False assms show ?thesis
    by (auto simp: utf8_char_def)
qed

lemma last_concat_utf8:
  "ns \<noteq> [] \<Longrightarrow>
   concat (map utf8_char ns) \<noteq> [] \<and>
   last (concat (map utf8_char ns)) = last (utf8_char (last ns))"
  by (cases ns rule: rev_cases) (simp_all add: utf8_char_not_empty)

lemma suffix_single: "suffix [a] xs = (xs \<noteq> [] \<and> last xs = a)"
  by (cases xs rule: rev_cases) auto

lemma suffix_crlf_bytes:
  assumes "list_all encodable ns"
  shows "suffix CRLF (concat (map utf8_char ns)) = suffix crlf_str ns"
proof (cases ns rule: rev_cases)
  case Nil
  then show ?thesis by (simp add: CRLF_def crlf_str_def)
next
  case (snoc ms n)
  with assms have n: "n < 0x110000" and ms: "list_all encodable ms"
    by (simp_all add: encodable_def)
  have lf: "(last (utf8_char n) = LF) = (n = 10)"
    using last_utf8_char [OF n, of 10] by (simp add: LF_def)
  show ?thesis
  proof (cases "n = 10")
    case False
    have "\<not> suffix CRLF (concat (map utf8_char ns))"
    proof
      assume "suffix CRLF (concat (map utf8_char ns))"
      then have "suffix [LF] (concat (map utf8_char ns))"
        unfolding CRLF_def by (rule suffix_ConsD)
      then have "last (concat (map utf8_char ns)) = LF"
        by (simp add: suffix_single)
      with snoc lf False show False
        using last_concat_utf8 [of ns] by simp
    qed
    moreover have "\<not> suffix crlf_str ns"
      using snoc False by (simp add: crlf_str_def)
    ultimately show ?thesis by simp
  next
    case True
    then have u: "utf8_char n = [LF]"
      by (simp add: utf8_char_def LF_def)
    have l: "suffix CRLF (concat (map utf8_char ns)) = suffix [CR] (concat (map utf8_char ms))"
      using snoc u snoc_suffix_snoc [of "[CR]" LF "concat (map utf8_char ms)" LF]
      by (simp add: CRLF_def)
    have r: "suffix crlf_str ns = suffix [13] ms"
      using snoc True snoc_suffix_snoc [of "[13]" 10 ms 10]
      by (simp add: crlf_str_def)
    show ?thesis
    proof (cases "ms = []")
      case True
      with l r show ?thesis by simp
    next
      case False
      from ms False have "last ms < 0x110000"
        using last_in_set [OF False] by (auto simp: list_all_iff encodable_def)
      then have "(last (utf8_char (last ms)) = CR) = (last ms = 13)"
        using last_utf8_char [of "last ms" 13] by (simp add: CR_def)
      with l r False show ?thesis
        using last_concat_utf8 [OF False] by (simp add: suffix_single)
    qed
  qed
qed

lemma suffix_crlf_encoded:
  "encode_utf8 message = Inr bs \<Longrightarrow> suffix CRLF bs = endswith message crlf_str"
  using encode_from_concat [of 0 message bs] suffix_crlf_bytes [of message]
  by (simp add: encode_utf8_def endswith_def)

lemma encode_from_fails_append:
  "encode_from i xs = Inl e \<Longrightarrow> encode_from i (xs @ ys) = Inl e"
proof (induction xs arbitrary: i)
  case Nil
  then show ?case by simp
next
  case (Cons x xs)
  then show ?case
    by (auto split: if_splits sum.splits)
qed

lemma encode_utf8_fails_appended:
  "encode_utf8 message = Inl e \<Longrightarrow> encode_utf8 (message @ crlf_str) = Inl e"
  by (simp add: encode_utf8_def encode_from_fails_append)

lemma send_data_connected:
  "is_connection_alive c \<Longrightarrow> conn_inv c \<Longrightarrow>
   send_data c data (Inr (length data)) =
     (Inr (), c\<lparr>socket := Some ((the (socket c))\<lparr>sent := sent (the (socket c)) @ [data]\<rparr>)\<rparr>)"
  by (auto simp: send_data_def sock_send_def conn_inv_def split: option.splits)

text \<open>
  C8, as the code has it. A message without the trailing \<^verbatim>\<open>"\r\n"\<close> and the same message
  with it added are sent alike, whatever the message. A message with a surrogate code point
  has no UTF-8 bytes: \<^verbatim>\<open>send\<close> raises the codec's error and the socket is not touched. For
  a message that has UTF-8 bytes \<open>bs\<close>, \<^verbatim>\<open>send\<close> with \<^verbatim>\<open>crlf_ending\<close> true hands to the
  socket's \<^verbatim>\<open>send\<close>, in one call, those bytes followed by \<^verbatim>\<open>b"\r\n"\<close> exactly when the
  message does not already end with \<^verbatim>\<open>"\r\n"\<close>. What is handed over always ends with the
  delimiter; the message ends with the delimiter exactly when its bytes do, so the
  delimiter is appended only to bytes that lack it. On an alive Connection, when the socket
  takes the whole buffer, that buffer is what is sent.
\<close>

theorem send_ensures_crlf:
  "(\<not> endswith message crlf_str \<longrightarrow>
      send c (message @ crlf_str) True r = send c message True r) \<and>
   (encode_utf8 message = Inl e \<longrightarrow> send c message True r = (Inl e, c)) \<and>
   (encode_utf8 message = Inr bs \<longrightarrow>
      send c message True r =
        send_data c (if endswith message crlf_str then bs else bs @ CRLF) r \<and>
      suffix CRLF (if endswith message crlf_str then bs else bs @ CRLF) \<and>
      endswith message crlf_str = suffix CRLF bs \<and>
      (is_connection_alive c \<and> conn_inv c \<and>
       r = Inr (length (if endswith message crlf_str then bs else bs @ CRLF)) \<longrightarrow>
         send c message True r =
           (Inr (),
            c\<lparr>socket := Some ((the (socket c))
                \<lparr>sent := sent (the (socket c)) @
                   [if endswith message crlf_str then bs else bs @ CRLF]\<rparr>)\<rparr>)))"
proof -
  let ?data = "if endswith message crlf_str then bs else bs @ CRLF"
  have same: "\<not> endswith message crlf_str \<longrightarrow>
      send c (message @ crlf_str) True r = send c message True r"
    by (simp add: send_def endswith_def suffix_def)
  have fails: "encode_utf8 message = Inl e \<longrightarrow> send c message True r = (Inl e, c)"
    using encode_utf8_fails_appended [of message e] by (simp add: send_def)
  have good: "encode_utf8 message = Inr bs \<longrightarrow>
      send c message True r = send_data c ?data r \<and>
      suffix CRLF ?data \<and>
      endswith message crlf_str = suffix CRLF bs \<and>
      (is_connection_alive c \<and> conn_inv c \<and> r = Inr (length ?data) \<longrightarrow>
         send c message True r =
           (Inr (),
            c\<lparr>socket := Some ((the (socket c))
                \<lparr>sent := sent (the (socket c)) @ [?data]\<rparr>)\<rparr>))"
  proof
    assume enc: "encode_utf8 message = Inr bs"
    have app: "encode_utf8 (message @ crlf_str) = Inr (bs @ CRLF)"
      using enc by (rule encode_utf8_crlf_appended)
    have one: "send c message True r = send_data c ?data r"
      using enc app by (simp add: send_def)
    have agree: "endswith message crlf_str = suffix CRLF bs"
      using suffix_crlf_encoded [OF enc] by simp
    have ends: "suffix CRLF ?data"
      using agree by (simp add: suffix_def)
    have live: "is_connection_alive c \<and> conn_inv c \<and> r = Inr (length ?data) \<longrightarrow>
        send c message True r =
          (Inr (),
           c\<lparr>socket := Some ((the (socket c))
               \<lparr>sent := sent (the (socket c)) @ [?data]\<rparr>)\<rparr>)"
    proof
      assume h: "is_connection_alive c \<and> conn_inv c \<and> r = Inr (length ?data)"
      from h have al: "is_connection_alive c" and iv: "conn_inv c"
        and rr: "r = Inr (length ?data)"
        by blast+
      have "send c message True r = send_data c ?data (Inr (length ?data))"
        using one rr by (simp only:)
      also have "\<dots> =
          (Inr (),
           c\<lparr>socket := Some ((the (socket c))
               \<lparr>sent := sent (the (socket c)) @ [?data]\<rparr>)\<rparr>)"
        by (rule send_data_connected [OF al iv])
      finally show "send c message True r =
          (Inr (),
           c\<lparr>socket := Some ((the (socket c))
               \<lparr>sent := sent (the (socket c)) @ [?data]\<rparr>)\<rparr>)" .
    qed
    from one ends agree live
    show "send c message True r = send_data c ?data r \<and>
      suffix CRLF ?data \<and>
      endswith message crlf_str = suffix CRLF bs \<and>
      (is_connection_alive c \<and> conn_inv c \<and> r = Inr (length ?data) \<longrightarrow>
         send c message True r =
           (Inr (),
            c\<lparr>socket := Some ((the (socket c))
                \<lparr>sent := sent (the (socket c)) @ [?data]\<rparr>)\<rparr>))"
      by blast
  qed
  from same fails good show ?thesis
    by blast
qed

theorem send_ensures_crlf_witness:
  "encode_utf8 [80, 73, 78, 71] = Inr [0x50, 0x49, 0x4E, 0x47] \<and>
   \<not> endswith [80, 73, 78, 71] crlf_str \<and>
   is_connection_alive live \<and> conn_inv live \<and>
   send live [80, 73, 78, 71] True (Inr 6) =
     (Inr (),
      live\<lparr>socket := Some ((the (socket live))
          \<lparr>sent := [[0x50, 0x49, 0x4E, 0x47, 0x0D, 0x0A]]\<rparr>)\<rparr>) \<and>
   send live [80, 73, 78, 71, 13, 10] True (Inr 6) = send live [80, 73, 78, 71] True (Inr 6) \<and>
   encode_utf8 [97, 98, 0xDC00] = Inl (UnicodeEncodeError 2) \<and>
   send live [97, 98, 0xDC00] True (Inr 5) = (Inl (UnicodeEncodeError 2), live)"
proof -
  have a: "encode_utf8 [80, 73, 78, 71] = Inr [0x50, 0x49, 0x4E, 0x47]"
    by (simp add: encode_utf8_def encodable_def utf8_char_def)
  have b: "\<not> endswith [80, 73, 78, 71] crlf_str"
    by (simp add: endswith_def crlf_str_def suffix_def Cons_eq_append_conv)
  have c: "is_connection_alive live"
    by (simp add: live_eq)
  have u: "encode_utf8 [97, 98, 0xDC00] = Inl (UnicodeEncodeError 2)"
    by (simp add: encode_utf8_def encodable_def utf8_char_def)
  note t = send_ensures_crlf [of "[80, 73, 78, 71]" live "Inr 6" _ "[0x50, 0x49, 0x4E, 0x47]"]
  note good = t [THEN conjunct2, THEN conjunct2, THEN mp, OF a]
  note i = good [THEN conjunct2, THEN conjunct2, THEN conjunct2]
  have len: "(Inr 6 :: exn + nat) =
      Inr (length (if endswith [80, 73, 78, 71] crlf_str then [0x50, 0x49, 0x4E, 0x47]
                   else [0x50, 0x49, 0x4E, 0x47] @ CRLF))"
    using b by (simp add: CRLF_def)
  from i b c conn_inv_live len have s2:
    "send live [80, 73, 78, 71] True (Inr 6) =
       (Inr (),
        live\<lparr>socket := Some ((the (socket live))
           \<lparr>sent := sent (the (socket live)) @ [[0x50, 0x49, 0x4E, 0x47] @ CRLF]\<rparr>)\<rparr>)"
    by simp
  from t [THEN conjunct1] b have s3:
    "send live ([80, 73, 78, 71] @ crlf_str) True (Inr 6) =
       send live [80, 73, 78, 71] True (Inr 6)"
    by simp
  have s4: "sent (the (socket live)) = []"
    by (simp add: live_eq)
  note bad = send_ensures_crlf [of "[97, 98, 0xDC00]" live "Inr 5" "UnicodeEncodeError 2",
      THEN conjunct2, THEN conjunct1, THEN mp, OF u]
  from a b c conn_inv_live s2 s3 s4 u bad show ?thesis
    by (simp add: crlf_str_def CRLF_def CR_def LF_def)
qed

text \<open>
  C8, as the claim has it, fails. The string \<^verbatim>\<open>"ab\udc00"\<close> ends with a surrogate code
  point: \<^verbatim>\<open>bytes(..., "utf-8")\<close> raises \<^verbatim>\<open>UnicodeEncodeError\<close> at position 2 and
  \<^verbatim>\<open>send\<close> transmits nothing, the socket being as before. And when the socket's
  \<^verbatim>\<open>send\<close> fails because the peer has reset the connection, \<^verbatim>\<open>send("PING")\<close> raises
  and transmits nothing either.
\<close>

theorem send_surrogate_raises:
  "send live [97, 98, 0xDC00] True (Inr 5) = (Inl (UnicodeEncodeError 2), live) \<and>
   send live [80, 73, 78, 71] True (Inl (SocketError ''[Errno 104] Connection reset by peer'')) =
     (Inl (SocketError ''[Errno 104] Connection reset by peer''), live)"
  by (simp add: send_def encode_utf8_def encodable_def utf8_char_def endswith_def
      crlf_str_def suffix_def Cons_eq_append_conv send_data_def sock_send_def live_eq)

section \<open>Dispatch\<close>

text \<open>The four ways one pass of the loop over the listeners can go at its first listener.\<close>

lemma dispatch_loop_Cons_cases:
  assumes "dispatch_loop objs (a # rs) obj s = (res, s', t)"
  obtains
    (accept_raises) e where "res = Some e" and "t = [Accept a obj (Inl e)]"
  | (receive_raises) e where "res = Some e"
      and "t = [Accept a obj (Inr True), Receive a obj (Some e)]"
  | (received) s2 t2 where "dispatch_loop objs rs obj s2 = (res, s', t2)"
      and "t = Accept a obj (Inr True) # Receive a obj None # t2"
  | (skipped) s1 t2 where "dispatch_loop objs rs obj s1 = (res, s', t2)"
      and "t = Accept a obj (Inr False) # t2"
proof -
  obtain ra s1 where acc: "accept (objs a) obj s = (ra, s1)"
    by (cases "accept (objs a) obj s") auto
  show thesis
  proof (cases ra)
    case (Inl e)
    with assms acc show thesis
      by (intro accept_raises [of e]) auto
  next
    case (Inr b)
    show thesis
    proof (cases b)
      case False
      obtain res2 s3 t2 where rest: "dispatch_loop objs rs obj s1 = (res2, s3, t2)"
        by (cases "dispatch_loop objs rs obj s1") auto
      with assms acc Inr False show thesis
        by (intro skipped [of s1 t2]) auto
    next
      case True
      obtain rr s2 where rcv: "receive (objs a) obj s1 = (rr, s2)"
        by (cases "receive (objs a) obj s1") auto
      show thesis
      proof (cases rr)
        case (Inl e)
        with assms acc Inr True rcv show thesis
          by (intro receive_raises [of e]) auto
      next
        case Inr2: (Inr u)
        obtain res2 s3 t2 where rest: "dispatch_loop objs rs obj s2 = (res2, s3, t2)"
          by (cases "dispatch_loop objs rs obj s2") auto
        with assms acc Inr True rcv Inr2 show thesis
          by (intro received [of s2 t2]) auto
      qed
    qed
  qed
qed

lemma dispatch_loop_others:
  "dispatch_loop objs rs obj s = (res, s', t) \<Longrightarrow> r \<notin> set rs \<Longrightarrow>
   filter (is_accept r m) t = [] \<and> filter (is_receive r m) t = [] \<and>
   filter (is_accepted r m) t = []"
proof (induction rs arbitrary: s res s' t)
  case Nil
  then show ?case by simp
next
  case (Cons a rs)
  from Cons.prems(2) have ne: "a \<noteq> r" and nin: "r \<notin> set rs"
    by auto
  from Cons.prems(1) show ?case
  proof (cases rule: dispatch_loop_Cons_cases)
    case (accept_raises e)
    with ne show ?thesis by simp
  next
    case (receive_raises e)
    with ne show ?thesis by simp
  next
    case (received s2 t2)
    with ne Cons.IH [OF received(1) nin] show ?thesis by simp
  next
    case (skipped s1 t2)
    with ne Cons.IH [OF skipped(1) nin] show ?thesis by simp
  qed
qed

lemma dispatch_loop_no_dispatch:
  "dispatch_loop objs rs obj s = (res, s', t) \<Longrightarrow> dispatched t = []"
proof (induction rs arbitrary: s res s' t)
  case Nil
  then show ?case by simp
next
  case (Cons a rs)
  from Cons.prems show ?case
  proof (cases rule: dispatch_loop_Cons_cases)
    case (received s2 t2)
    with Cons.IH [OF received(1)] show ?thesis by simp
  next
    case (skipped s1 t2)
    with Cons.IH [OF skipped(1)] show ?thesis by simp
  qed simp_all
qed




lemma store_2: "store 2 = logger"
  by (simp add: store_def)


lemma store_1: "store (Suc 0) = faulty"
  by (simp add: store_def)



section \<open>Framing\<close>

lemma CR_not_LF: "CR \<noteq> LF"
  by (simp add: CR_def LF_def)

lemma split_from_crlf_here:
  "split_from CRLF cur (CRLF @ rest) = cur # split_from CRLF [] rest"
  by (simp add: CRLF_def)

lemma not_prefix_crlf:
  assumes "\<not> prefix CRLF (x # pre)" and "\<not> sublist CRLF pre"
  shows "\<not> prefix CRLF (x # pre @ CRLF @ rest)"
proof (cases pre)
  case Nil
  then show ?thesis
    using CR_not_LF by (auto simp: CRLF_def)
next
  case (Cons y ys)
  with assms(1) show ?thesis
    by (auto simp: CRLF_def)
qed

lemma split_from_first:
  "\<not> sublist CRLF pre \<Longrightarrow>
   split_from CRLF cur (pre @ CRLF @ rest) = (cur @ pre) # split_from CRLF [] rest"
proof (induction pre arbitrary: cur)
  case Nil
  show ?case
    using split_from_crlf_here [of cur rest] by simp
next
  case (Cons x pre)
  from Cons.prems have np: "\<not> prefix CRLF (x # pre)" and ns: "\<not> sublist CRLF pre"
    by (simp_all add: sublist_Cons_right)
  have "\<not> prefix CRLF (x # pre @ CRLF @ rest)"
    using np ns by (rule not_prefix_crlf)
  then have "split_from CRLF cur ((x # pre) @ CRLF @ rest) =
      split_from CRLF (cur @ [x]) (pre @ CRLF @ rest)"
    by simp
  also have "\<dots> = ((cur @ [x]) @ pre) # split_from CRLF [] rest"
    using ns by (rule Cons.IH)
  finally show ?case
    by simp
qed

lemma split_from_none:
  "\<not> sublist CRLF data \<Longrightarrow> split_from CRLF cur data = [cur @ data]"
proof (induction data arbitrary: cur)
  case Nil
  show ?case by simp
next
  case (Cons x data)
  from Cons.prems have np: "\<not> prefix CRLF (x # data)" and ns: "\<not> sublist CRLF data"
    by (simp_all add: sublist_Cons_right)
  from np have "split_from CRLF cur (x # data) = split_from CRLF (cur @ [x]) data"
    by simp
  also have "\<dots> = [(cur @ [x]) @ data]"
    using ns by (rule Cons.IH)
  finally show ?case
    by simp
qed

lemma first_segment:
  assumes "(data = pre @ CRLF @ rest \<and> \<not> sublist CRLF pre) \<or>
           (data = pre \<and> \<not> sublist CRLF data)"
  shows "take 1 (split_from CRLF [] data) = [pre]"
  using assms split_from_first [of pre "[]" rest] split_from_none [of data "[]"]
  by auto

lemma dispatch_each_single:
  "dispatch_each decode objs c [msg] s = dispatch_listeners objs c (decode msg) s"
  by (cases "dispatch_listeners objs c (decode msg) s")
    (auto split: option.splits)

lemma dispatched_dispatch_listeners:
  "dispatched (snd (snd (dispatch_listeners objs c obj s))) = [obj]"
proof -
  obtain res s' t where l: "dispatch_loop objs (sorted_list_of_fset (listeners c)) obj s =
      (res, s', t)"
    by (cases "dispatch_loop objs (sorted_list_of_fset (listeners c)) obj s") auto
  from dispatch_loop_no_dispatch [OF l] l show ?thesis
    by (simp add: dispatch_listeners_def)
qed

lemma listen_body_data:
  assumes "is_connection_alive c" and "conn_inv c" and "data \<noteq> []"
    and "take 1 (split_from CRLF [] data) = [msg]"
  shows "listen_body decode objs n c s (Inr data) =
           (case dispatch_listeners objs c (decode msg) s of
              (res, s', t) \<Rightarrow> (res, c, s', t))"
  using assms
  by (simp add: listen_body_def recv_open bytes_split_def dispatch_each_single CRLF_def
      del: dispatch_each.simps split: prod.splits)

lemma listen_data:
  assumes "is_connection_alive c" and "conn_inv c" and "data \<noteq> []"
    and "take 1 (split_from CRLF [] data) = [msg]"
  shows "listen decode objs n c s (Inr data # rs) =
           (case dispatch_listeners objs c (decode msg) s of
              (Some e, s', t) \<Rightarrow> \<lparr>ending = Raises e, conn = c, app = s', trace = t\<rparr>
            | (None, s', t) \<Rightarrow>
                (listen decode objs n c s' rs)
                  \<lparr>trace := t @ trace (listen decode objs n c s' rs)\<rparr>)"
proof -
  obtain res s' t where d: "dispatch_listeners objs c (decode msg) s = (res, s', t)"
    by (cases "dispatch_listeners objs c (decode msg) s") auto
  with listen_body_data [OF assms, of decode objs n s]
  have "listen_body decode objs n c s (Inr data) = (res, c, s', t)"
    by simp
  with assms(1) d show ?thesis
    by (cases res) simp_all
qed

lemma listen_blocked:
  "is_connection_alive c \<Longrightarrow> conn_inv c \<Longrightarrow>
   listen decode objs n c s [] = \<lparr>ending = Blocked, conn = c, app = s, trace = []\<rparr>"
  by (simp add: recv_open)

lemma sublist_crlf_A: "\<not> sublist CRLF [0x41]"
  by (simp add: CRLF_def sublist_Cons_right)

lemma sorted_refs_2: "sorted_list_of_fset {|2::nat|} = [2]"
  by code_simp

text \<open>
  C2. On an alive Connection, a read that returns non-empty bytes leads to exactly one call
  of \<^verbatim>\<open>__dispatch_listeners\<close>, with the decoding of the bytes before the first
  \<^verbatim>\<open>b"\r\n"\<close> of the read, or of the whole read when it holds no \<^verbatim>\<open>b"\r\n"\<close>; the default
  decoding returns those bytes. The Connection is the same after the pass, and the run goes
  on from it with the next read alone: the bytes after the first delimiter are dropped,
  nothing of this read is kept for the next.
\<close>

theorem one_message_per_read:
  assumes "is_connection_alive c" and "conn_inv c" and "data \<noteq> []"
    and "(data = pre @ CRLF @ rest \<and> \<not> sublist CRLF pre) \<or>
         (data = pre \<and> \<not> sublist CRLF data)"
  shows "listen_body decode objs n c s (Inr data) =
           (case dispatch_listeners objs c (decode pre) s of
              (res, s', t) \<Rightarrow> (res, c, s', t)) \<and>
         dispatched (snd (snd (snd (listen_body decode objs n c s (Inr data))))) =
           [decode pre] \<and>
         process_data pre = pre \<and>
         listen decode objs n c s (Inr data # rs) =
           (case dispatch_listeners objs c (decode pre) s of
              (Some e, s', t) \<Rightarrow> \<lparr>ending = Raises e, conn = c, app = s', trace = t\<rparr>
            | (None, s', t) \<Rightarrow>
                (listen decode objs n c s' rs)
                  \<lparr>trace := t @ trace (listen decode objs n c s' rs)\<rparr>)"
proof -
  have seg: "take 1 (split_from CRLF [] data) = [pre]"
    using assms(4) by (rule first_segment)
  note body = listen_body_data [OF assms(1-3) seg, of decode objs n s]
  have one: "dispatched (snd (snd (snd (listen_body decode objs n c s (Inr data))))) =
      [decode pre]"
  proof -
    obtain res s' t where d: "dispatch_listeners objs c (decode pre) s = (res, s', t)"
      by (cases "dispatch_listeners objs c (decode pre) s") auto
    with dispatched_dispatch_listeners [of objs c "decode pre" s] body show ?thesis
      by simp
  qed
  have dec: "process_data pre = pre"
    by (simp add: process_data_def)
  note run = listen_data [OF assms(1-3) seg, of decode objs n s rs]
  from body one dec run show ?thesis
    by blast
qed

theorem one_message_per_read_witness:
  "is_connection_alive (add_listener live 2) \<and> conn_inv (add_listener live 2) \<and>
   [0x41, CR, LF, 0x42, CR, LF, 0x43, CR, 0x44] = [0x41] @ CRLF @ [0x42, CR, LF, 0x43, CR, 0x44] \<and>
   \<not> sublist CRLF [0x41] \<and>
   listen process_data store 4096 (add_listener live 2) []
     [Inr [0x41, CR, LF, 0x42, CR, LF, 0x43, CR, 0x44], Inr [LF]] =
     \<lparr>ending = Blocked, conn = add_listener live 2, app = [[0x41], [LF]],
      trace = [Dispatch [0x41], Accept 2 [0x41] (Inr True), Receive 2 [0x41] None,
               Dispatch [LF], Accept 2 [LF] (Inr True), Receive 2 [LF] None]\<rparr>"
proof -
  let ?c = "add_listener live 2"
  let ?data = "[0x41, CR, LF, 0x42, CR, LF, 0x43, CR, 0x44] :: bytes"
  have a: "is_connection_alive ?c"
    by (simp add: live_eq add_listener_def)
  have b: "conn_inv ?c"
    by (rule conn_inv_add_listener [OF conn_inv_live])
  have ne: "?data \<noteq> []"
    by simp
  have eq: "?data = [0x41] @ CRLF @ [0x42, CR, LF, 0x43, CR, 0x44]"
    by (simp add: CRLF_def)
  have h: "(?data = [0x41] @ CRLF @ [0x42, CR, LF, 0x43, CR, 0x44] \<and> \<not> sublist CRLF [0x41]) \<or>
      (?data = [0x41] \<and> \<not> sublist CRLF ?data)"
    using eq sublist_crlf_A by simp
  have ls: "listeners ?c = {|2|}"
    by (simp add: add_listener_def live_eq)
  have d1: "dispatch_listeners store ?c [0x41] [] =
      (None, [[0x41]], [Dispatch [0x41], Accept 2 [0x41] (Inr True), Receive 2 [0x41] None])"
    by (simp add: dispatch_listeners_def ls sorted_refs_2 store_2 accept_def receive_def
        logger_def)
  have d2: "dispatch_listeners store ?c [LF] [[0x41]] =
      (None, [[0x41], [LF]], [Dispatch [LF], Accept 2 [LF] (Inr True), Receive 2 [LF] None])"
    by (simp add: dispatch_listeners_def ls sorted_refs_2 store_2 accept_def receive_def
        logger_def)
  have nolf: "\<not> sublist CRLF [LF]"
    using CR_not_LF by (simp add: CRLF_def sublist_Cons_right)
  have seg2: "take 1 (split_from CRLF [] [LF]) = [[LF]]"
    using split_from_none [OF nolf, of "[]"] by simp
  have r2: "listen process_data store 4096 ?c [[0x41]] [Inr [LF]] =
      \<lparr>ending = Blocked, conn = ?c, app = [[0x41], [LF]],
       trace = [Dispatch [LF], Accept 2 [LF] (Inr True), Receive 2 [LF] None]\<rparr>"
    using listen_data [OF a b _ seg2, of process_data store 4096 "[[0x41]]" "[]"] d2
      listen_blocked [OF a b, of process_data store 4096]
    by (simp add: process_data_def del: listen.simps)
  note th = one_message_per_read [OF a b ne h, of process_data store 4096 "[]" "[Inr [LF]]",
      THEN conjunct2, THEN conjunct2, THEN conjunct2]
  have r1: "listen process_data store 4096 ?c [] [Inr ?data, Inr [LF]] =
      \<lparr>ending = Blocked, conn = ?c, app = [[0x41], [LF]],
       trace = [Dispatch [0x41], Accept 2 [0x41] (Inr True), Receive 2 [0x41] None,
                Dispatch [LF], Accept 2 [LF] (Inr True), Receive 2 [LF] None]\<rparr>"
    using th d1 r2 by (simp add: process_data_def del: listen.simps)
  from r1 a b sublist_crlf_A show ?thesis
    by (simp add: CRLF_def del: listen.simps)
qed

lemma split_three:
  "bytes_split [0x41, CR, LF, 0x42, CR, LF, 0x43, CR, LF] CRLF =
     Inr [[0x41], [0x42], [0x43], []]"
  by (simp add: bytes_split_def CRLF_def CR_def LF_def)

text \<open>
  C1. The read \<^verbatim>\<open>b"A\r\nB\r\nC\r\n"\<close> holds three complete segments; \<^verbatim>\<open>split\<close> returns
  them and the empty remainder. The loop slices with \<^verbatim>\<open>[:1]\<close> and dispatches the first
  segment alone: the listener that accepts everything handles \<^verbatim>\<open>b"A"\<close> and nothing else,
  and the loop goes back to \<^verbatim>\<open>recv\<close>.
\<close>

theorem listen_three_segments:
  "bytes_split [0x41, CR, LF, 0x42, CR, LF, 0x43, CR, LF] CRLF =
     Inr [[0x41], [0x42], [0x43], []] \<and>
   listen process_data store 4096 (add_listener live 2) []
     [Inr [0x41, CR, LF, 0x42, CR, LF, 0x43, CR, LF]] =
     \<lparr>ending = Blocked, conn = add_listener live 2, app = [[0x41]],
      trace = [Dispatch [0x41], Accept 2 [0x41] (Inr True), Receive 2 [0x41] None]\<rparr> \<and>
   dispatched (trace (listen process_data store 4096 (add_listener live 2) []
     [Inr [0x41, CR, LF, 0x42, CR, LF, 0x43, CR, LF]])) = [[0x41]]"
proof -
  let ?c = "add_listener live 2"
  let ?data = "[0x41, CR, LF, 0x42, CR, LF, 0x43, CR, LF] :: bytes"
  have a: "is_connection_alive ?c"
    by (simp add: live_eq add_listener_def)
  have b: "conn_inv ?c"
    by (rule conn_inv_add_listener [OF conn_inv_live])
  have ls: "listeners ?c = {|2|}"
    by (simp add: add_listener_def live_eq)
  have d1: "dispatch_listeners store ?c [0x41] [] =
      (None, [[0x41]], [Dispatch [0x41], Accept 2 [0x41] (Inr True), Receive 2 [0x41] None])"
    by (simp add: dispatch_listeners_def ls sorted_refs_2 store_2 accept_def receive_def
        logger_def)
  have seg: "take 1 (split_from CRLF [] ?data) = [[0x41]]"
    using split_three by (simp add: bytes_split_def CRLF_def)
  have ne: "?data \<noteq> []"
    by simp
  have r: "listen process_data store 4096 ?c [] [Inr ?data] =
      \<lparr>ending = Blocked, conn = ?c, app = [[0x41]],
       trace = [Dispatch [0x41], Accept 2 [0x41] (Inr True), Receive 2 [0x41] None]\<rparr>"
    using listen_data [OF a b ne seg, of process_data store 4096 "[]" "[]"] d1
      listen_blocked [OF a b, of process_data store 4096]
    by (simp add: process_data_def del: listen.simps)
  from r split_three show ?thesis
    by (simp del: listen.simps)
qed

section \<open>A listener that raises\<close>

lemma dispatch_loop_raises_append:
  "dispatch_loop objs pre obj s = (Some e, s', t) \<Longrightarrow>
   dispatch_loop objs (pre @ post) obj s = (Some e, s', t)"
proof (induction pre arbitrary: s t)
  case Nil
  then show ?case by simp
next
  case (Cons a pre)
  obtain ra s1 where acc: "accept (objs a) obj s = (ra, s1)"
    by (cases "accept (objs a) obj s") auto
  show ?case
  proof (cases ra)
    case (Inl x)
    with Cons.prems acc show ?thesis by auto
  next
    case (Inr b)
    show ?thesis
    proof (cases b)
      case False
      obtain res2 s3 t2 where rest: "dispatch_loop objs pre obj s1 = (res2, s3, t2)"
        by (cases "dispatch_loop objs pre obj s1") auto
      with Cons.prems acc Inr False have "res2 = Some e" and "s3 = s'"
        and "t = Accept a obj (Inr False) # t2"
        by simp_all
      with rest Cons.IH [of s1 t2] acc Inr False show ?thesis
        by simp
    next
      case True
      obtain rr s2 where rcv: "receive (objs a) obj s1 = (rr, s2)"
        by (cases "receive (objs a) obj s1") auto
      show ?thesis
      proof (cases rr)
        case (Inl x)
        with Cons.prems acc Inr True rcv show ?thesis by auto
      next
        case Inr2: (Inr u)
        obtain res2 s3 t2 where rest: "dispatch_loop objs pre obj s2 = (res2, s3, t2)"
          by (cases "dispatch_loop objs pre obj s2") auto
        with Cons.prems acc Inr True rcv Inr2 have "res2 = Some e" and "s3 = s'"
          and "t = Accept a obj (Inr True) # Receive a obj None # t2"
          by simp_all
        with rest Cons.IH [of s2 t2] acc Inr True rcv Inr2 show ?thesis
          by simp
      qed
    qed
  qed
qed

lemma sorted_refs_1_2: "sorted_list_of_fset {|2, 1::nat|} = [1, 2]"
  by code_simp

lemma listeners_1_2: "sorted_list_of_fset (listeners (add_listener (add_listener live 1) 2)) = [1, 2]"
proof -
  have "listeners (add_listener (add_listener live 1) 2) = {|2, 1|}"
    by (simp add: add_listener_def live_eq)
  with sorted_refs_1_2 show ?thesis
    by (simp only:)
qed

lemma faulty_first:
  "dispatch_loop store [1] [0x41] [] = (Some (Raised ''boom''), [], [Accept 1 [0x41] (Inl (Raised ''boom''))])"
  by (simp add: store_1 accept_def faulty_def)

text \<open>
  C4, as the code has it. Nothing in \<^verbatim>\<open>__dispatch_listeners\<close> or \<^verbatim>\<open>__listen\<close> catches an
  exception. When a listener's \<^verbatim>\<open>accept\<close> or \<^verbatim>\<open>receive\<close> raises while a message is
  dispatched (the loop over the listeners visited so far, \<open>pre\<close>, ends with an exception),
  the listeners that come later in the iteration, \<open>post\<close>, are not called for that message,
  \<^verbatim>\<open>__listen\<close> ends with that exception, whatever reads would follow, and the alive flag
  stays set.
\<close>

theorem listener_exception_ends_loop:
  assumes "is_connection_alive c" and "conn_inv c" and "data \<noteq> []"
    and "bytes_split data CRLF = Inr (seg # segs)"
    and "sorted_list_of_fset (listeners c) = pre @ post"
    and "dispatch_loop objs pre (decode seg) s = (Some e, s', t)"
  shows "listen decode objs n c s (Inr data # rs) =
           \<lparr>ending = Raises e, conn = c, app = s', trace = Dispatch (decode seg) # t\<rparr> \<and>
         is_connection_alive (conn (listen decode objs n c s (Inr data # rs))) \<and>
         (r \<in> set post \<longrightarrow>
            filter (is_accept r m) t = [] \<and> filter (is_receive r m) t = [])"
proof -
  have seg: "take 1 (split_from CRLF [] data) = [seg]"
    using assms(4) by (simp add: bytes_split_def split: if_splits)
  have "dispatch_loop objs (sorted_list_of_fset (listeners c)) (decode seg) s = (Some e, s', t)"
    using dispatch_loop_raises_append [OF assms(6), of post] assms(5) by simp
  then have d: "dispatch_listeners objs c (decode seg) s =
      (Some e, s', Dispatch (decode seg) # t)"
    by (simp add: dispatch_listeners_def)
  have run: "listen decode objs n c s (Inr data # rs) =
      \<lparr>ending = Raises e, conn = c, app = s', trace = Dispatch (decode seg) # t\<rparr>"
    using listen_data [OF assms(1-3) seg, of decode objs n s rs] d
    by (simp del: listen.simps)
  have alive: "is_connection_alive (conn (listen decode objs n c s (Inr data # rs)))"
    using run assms(1) by (simp del: listen.simps)
  have later: "r \<in> set post \<longrightarrow>
      filter (is_accept r m) t = [] \<and> filter (is_receive r m) t = []"
  proof
    assume r: "r \<in> set post"
    have "distinct (pre @ post)"
      using assms(5) [symmetric] by (simp add: sorted_list_of_fset.rep_eq)
    with r have "r \<notin> set pre"
      by auto
    from dispatch_loop_others [OF assms(6) this, of m]
    show "filter (is_accept r m) t = [] \<and> filter (is_receive r m) t = []"
      by simp
  qed
  from run alive later show ?thesis
    by blast
qed

lemma split_A: "bytes_split [0x41, CR, LF] CRLF = Inr [[0x41], []]"
  by (simp add: bytes_split_def CRLF_def CR_def LF_def)

theorem listener_exception_ends_loop_witness:
  "is_connection_alive (add_listener (add_listener live 1) 2) \<and>
   conn_inv (add_listener (add_listener live 1) 2) \<and>
   bytes_split [0x41, CR, LF] CRLF = Inr [[0x41], []] \<and>
   sorted_list_of_fset (listeners (add_listener (add_listener live 1) 2)) = [1] @ [2] \<and>
   dispatch_loop store [1] (process_data [0x41]) [] =
     (Some (Raised ''boom''), [], [Accept 1 [0x41] (Inl (Raised ''boom''))]) \<and>
   ending (listen process_data store 4096 (add_listener (add_listener live 1) 2) []
     [Inr [0x41, CR, LF], Inr [0x42, CR, LF]]) = Raises (Raised ''boom'') \<and>
   is_connection_alive (conn (listen process_data store 4096
     (add_listener (add_listener live 1) 2) [] [Inr [0x41, CR, LF], Inr [0x42, CR, LF]])) \<and>
   filter (is_accept 2 [0x41]) [Accept 1 [0x41] (Inl (Raised ''boom''))] = []"
proof -
  let ?c = "add_listener (add_listener live 1) 2"
  have a: "is_connection_alive ?c"
    by (simp add: live_eq add_listener_def)
  have b: "conn_inv ?c"
    by (intro conn_inv_add_listener conn_inv_live)
  have ne: "[0x41, CR, LF] \<noteq> ([] :: bytes)"
    by simp
  have ord: "sorted_list_of_fset (listeners ?c) = [1] @ [2]"
    using listeners_1_2 by simp
  have f: "dispatch_loop store [1] (process_data [0x41]) [] =
      (Some (Raised ''boom''), [], [Accept 1 [0x41] (Inl (Raised ''boom''))])"
    using faulty_first by (simp only: process_data_def)
  note th = listener_exception_ends_loop [where decode = process_data and pre = "[1]"
      and post = "[2]" and n = 4096 and rs = "[Inr [0x42, CR, LF]]" and r = 2
      and m = "[0x41]", OF a b ne split_A ord f]
  from th a b split_A ord f show ?thesis
    by (simp del: listen.simps dispatch_loop.simps)
qed

text \<open>
  C4, as the claim has it, fails. Two listeners are registered: one whose filter raises and
  one that accepts and records every message. Two reads arrive, \<^verbatim>\<open>b"A\r\n"\<close> and
  \<^verbatim>\<open>b"B\r\n"\<close>. The loop ends with the exception of the first listener while \<^verbatim>\<open>b"A"\<close> is
  dispatched; \<^verbatim>\<open>b"B"\<close> is never dispatched and the recording listener has recorded nothing.
\<close>

theorem faulty_listener_stops_loop:
  "listen process_data store 4096 (add_listener (add_listener live 1) 2) []
     [Inr [0x41, CR, LF], Inr [0x42, CR, LF]] =
     \<lparr>ending = Raises (Raised ''boom''),
      conn = add_listener (add_listener live 1) 2,
      app = [],
      trace = [Dispatch [0x41], Accept 1 [0x41] (Inl (Raised ''boom''))]\<rparr>"
proof -
  let ?c = "add_listener (add_listener live 1) 2"
  have a: "is_connection_alive ?c"
    by (simp add: live_eq add_listener_def)
  have b: "conn_inv ?c"
    by (intro conn_inv_add_listener conn_inv_live)
  have ne: "[0x41, CR, LF] \<noteq> ([] :: bytes)"
    by simp
  have seg: "take 1 (split_from CRLF [] [0x41, CR, LF]) = [[0x41]]"
    using split_A by (simp add: bytes_split_def CRLF_def)
  have "dispatch_loop store ([1] @ [2]) [0x41] [] =
      (Some (Raised ''boom''), [], [Accept 1 [0x41] (Inl (Raised ''boom''))])"
    using faulty_first by (rule dispatch_loop_raises_append)
  then have d: "dispatch_listeners store ?c [0x41] [] =
      (Some (Raised ''boom''), [], [Dispatch [0x41], Accept 1 [0x41] (Inl (Raised ''boom''))])"
    using listeners_1_2 by (simp add: dispatch_listeners_def del: dispatch_loop.simps)
  show ?thesis
    using listen_data [OF a b ne seg, of process_data store 4096 "[]" "[Inr [0x42, CR, LF]]"] d
    by (simp add: process_data_def del: listen.simps)
qed

end
